theory Spec2Isabelle
  imports Complex_Main
begin

section \<open>Superdense coding: the circuit builder and its canonical read-out\<close>

text \<open>
  The notebook builds quantum circuits with a circuit library, runs them on a simulator
  backend and reorders the measured bit strings. A circuit object is modelled by the
  number of its qubits and the list of instructions appended so far; each method call
  of the library (\<^verbatim>\<open>circuit.h(a)\<close>, \<^verbatim>\<open>circuit.cx(a, b)\<close>, ...) appends one
  instruction or raises the library's error, and the in-place mutation of the circuit is
  explicit state passing: a function returns the new circuit, or the error it raised.
\<close>

subsection \<open>Strings and errors\<close>

text \<open>
  A Python string is a sequence of Unicode code points; a code point is modelled by its
  number. \<open>str\<close> reads an ASCII literal as such a sequence.
\<close>

type_synonym codepoint = nat
type_synonym pystr = "codepoint list"

definition str :: "string \<Rightarrow> pystr" where
  "str s = map of_char s"

datatype error = AssertionError | ValueError | CircuitError

subsection \<open>Circuits\<close>

datatype gate =
    GateH nat
  | GateCX nat nat
  | GateX nat
  | GateZ nat
  | Barrier
  | MeasureAll

record circuit =
  n_qubits :: nat
  gates :: "gate list"

definition QuantumCircuit :: "nat \<Rightarrow> nat \<Rightarrow> circuit" where
  \<comment> \<open>\<^verbatim>\<open>QuantumCircuit(qreg_a, qreg_b)\<close> on two registers of the given sizes\<close>
  "QuantumCircuit na nb = \<lparr>n_qubits = na + nb, gates = []\<rparr>"

text \<open>
  The library refuses an instruction on a qubit that the circuit does not have, and a
  CNOT whose control is its target: the gate methods raise \<^verbatim>\<open>CircuitError\<close> then
  and leave the circuit as it was. A barrier and \<^verbatim>\<open>measure_all\<close> take no qubit
  argument and cannot fail. The construction of the registers and of the circuit is
  taken to succeed.
\<close>

fun gate_ok :: "nat \<Rightarrow> gate \<Rightarrow> bool" where
  "gate_ok n (GateH q) = (q < n)"
| "gate_ok n (GateCX ctl tgt) = (ctl < n \<and> tgt < n \<and> ctl \<noteq> tgt)"
| "gate_ok n (GateX q) = (q < n)"
| "gate_ok n (GateZ q) = (q < n)"
| "gate_ok n Barrier = True"
| "gate_ok n MeasureAll = True"

definition append_gate :: "circuit \<Rightarrow> gate \<Rightarrow> circuit" where
  "append_gate c g = c\<lparr>gates := gates c @ [g]\<rparr>"

definition append_checked :: "circuit \<Rightarrow> gate \<Rightarrow> error + circuit" where
  "append_checked c g =
     (if gate_ok (n_qubits c) g then Inr (append_gate c g) else Inl CircuitError)"

definition circuit_h :: "circuit \<Rightarrow> nat \<Rightarrow> error + circuit" where
  "circuit_h c q = append_checked c (GateH q)"

definition circuit_cx :: "circuit \<Rightarrow> nat \<Rightarrow> nat \<Rightarrow> error + circuit" where
  "circuit_cx c ctl tgt = append_checked c (GateCX ctl tgt)"

definition circuit_x :: "circuit \<Rightarrow> nat \<Rightarrow> error + circuit" where
  "circuit_x c q = append_checked c (GateX q)"

definition circuit_z :: "circuit \<Rightarrow> nat \<Rightarrow> error + circuit" where
  "circuit_z c q = append_checked c (GateZ q)"

definition circuit_barrier :: "circuit \<Rightarrow> circuit" where
  "circuit_barrier c = append_gate c Barrier"

definition circuit_measure_all :: "circuit \<Rightarrow> circuit" where
  "circuit_measure_all c = append_gate c MeasureAll"

text \<open>The qubits an instruction acts on.\<close>

fun gate_qubits :: "gate \<Rightarrow> nat set" where
  "gate_qubits (GateH q) = {q}"
| "gate_qubits (GateCX ctl tgt) = {ctl, tgt}"
| "gate_qubits (GateX q) = {q}"
| "gate_qubits (GateZ q) = {q}"
| "gate_qubits Barrier = {}"
| "gate_qubits MeasureAll = {}"

subsection \<open>The three building blocks\<close>

text \<open>
  Each function stops at the first library call that raises; a later call is not made.
\<close>

definition prepare_bell_state :: "circuit \<Rightarrow> nat \<Rightarrow> nat \<Rightarrow> error + circuit" where
  "prepare_bell_state c a b =
     (case circuit_h c a of
        Inl e \<Rightarrow> Inl e
      | Inr c1 \<Rightarrow> circuit_cx c1 a b)"

definition encode_bits :: "circuit \<Rightarrow> nat \<Rightarrow> bool \<Rightarrow> bool \<Rightarrow> error + circuit" where
  "encode_bits c q b0 b1 =
     (case (if b0 then circuit_x c q else Inr c) of
        Inl e \<Rightarrow> Inl e
      | Inr c1 \<Rightarrow> (if b1 then circuit_z c1 q else Inr c1))"

definition decode_bits :: "circuit \<Rightarrow> nat \<Rightarrow> nat \<Rightarrow> error + circuit" where
  "decode_bits c q_a q_b =
     (case circuit_cx c q_a q_b of
        Inl e \<Rightarrow> Inl e
      | Inr c1 \<Rightarrow> circuit_h c1 q_a)"

subsection \<open>The coder\<close>

text \<open>
  \<^verbatim>\<open>int(i, 2)\<close> on a one-character string \<open>i\<close> accepts a decimal digit whose value is
  below the base and raises \<^verbatim>\<open>ValueError\<close> on everything else. For ASCII the decimal
  digits are \<open>0\<close> to \<open>9\<close> (code points 48 to 57); which code points beyond ASCII are
  decimal digits, and with which value, is a table of the Python runtime that is not
  part of the notebook: it is the parameter \<open>tbl\<close>.
\<close>

definition decimal_value :: "(codepoint \<Rightarrow> nat option) \<Rightarrow> codepoint \<Rightarrow> nat option" where
  "decimal_value tbl ch =
     (if 48 \<le> ch \<and> ch \<le> 57 then Some (ch - 48)
      else if ch < 128 then None
      else tbl ch)"

definition int_base2 :: "(codepoint \<Rightarrow> nat option) \<Rightarrow> codepoint \<Rightarrow> error + nat" where
  "int_base2 tbl ch =
     (case decimal_value tbl ch of
        None \<Rightarrow> Inl ValueError
      | Some d \<Rightarrow> if d < 2 then Inr d else Inl ValueError)"

text \<open>The list comprehension \<^verbatim>\<open>[int(i,2) for i in bitstring]\<close> stops at the first error.\<close>

fun int_list :: "(codepoint \<Rightarrow> nat option) \<Rightarrow> pystr \<Rightarrow> error + nat list" where
  "int_list tbl [] = Inr []"
| "int_list tbl (ch # rest) =
     (case int_base2 tbl ch of
        Inl e \<Rightarrow> Inl e
      | Inr d \<Rightarrow> (case int_list tbl rest of Inl e \<Rightarrow> Inl e | Inr ds \<Rightarrow> Inr (d # ds)))"

text \<open>\<^verbatim>\<open>np.array(bitstring).reshape(N,2)\<close>: the rows of an even-length list.\<close>

fun reshape2 :: "'a list \<Rightarrow> ('a \<times> 'a) list" where
  "reshape2 (a # b # rest) = (a, b) # reshape2 rest"
| "reshape2 _ = []"

text \<open>
  The checks on the input come first: the assertion on the length, then the conversion
  of the characters. \<open>parse_bits\<close> is that prefix of the function, \<open>build_circuit\<close>
  is everything from the construction of the registers on.
\<close>

definition parse_bits :: "(codepoint \<Rightarrow> nat option) \<Rightarrow> pystr \<Rightarrow> error + nat list" where
  "parse_bits tbl bitstring =
     (if length bitstring mod 2 \<noteq> 0 then Inl AssertionError
      else int_list tbl bitstring)"

text \<open>A \<^verbatim>\<open>for\<close> loop over a list whose body may raise: the first error ends it.\<close>

fun for_each :: "('s \<Rightarrow> 'a \<Rightarrow> error + 's) \<Rightarrow> 's \<Rightarrow> 'a list \<Rightarrow> error + 's" where
  "for_each body s [] = Inr s"
| "for_each body s (x # xs) =
     (case body s x of
        Inl e \<Rightarrow> Inl e
      | Inr s' \<Rightarrow> for_each body s' xs)"

definition bell_phase :: "nat \<Rightarrow> circuit \<Rightarrow> error + circuit" where
  "bell_phase N c =
     for_each (\<lambda>c (q_a, q_b). prepare_bell_state c q_a q_b) c (zip [0..<N] [N..<2 * N])"

definition encode_phase :: "(nat \<times> nat) list \<Rightarrow> circuit \<Rightarrow> error + circuit" where
  "encode_phase bit_arr c =
     for_each (\<lambda>c (q_a, bit_pair). encode_bits c q_a (fst bit_pair \<noteq> 0) (snd bit_pair \<noteq> 0))
       c (enumerate 0 bit_arr)"

definition decode_phase :: "nat \<Rightarrow> circuit \<Rightarrow> error + circuit" where
  "decode_phase N c =
     for_each (\<lambda>c (q_a, q_b). decode_bits c q_a q_b) c (zip [0..<N] [N..<2 * N])"

definition build_circuit :: "nat list \<Rightarrow> error + circuit" where
  "build_circuit bits =
     (let N = length bits div 2;
          bit_arr = reshape2 bits;
          circuit = QuantumCircuit N N
      in case bell_phase N circuit of
           Inl e \<Rightarrow> Inl e
         | Inr circuit \<Rightarrow>
             (let circuit = circuit_barrier circuit
              in case encode_phase bit_arr circuit of
                   Inl e \<Rightarrow> Inl e
                 | Inr circuit \<Rightarrow>
                     (let circuit = circuit_barrier circuit
                      in case decode_phase N circuit of
                           Inl e \<Rightarrow> Inl e
                         | Inr circuit \<Rightarrow> Inr (circuit_measure_all circuit))))"

definition superdense_coder :: "(codepoint \<Rightarrow> nat option) \<Rightarrow> pystr \<Rightarrow> error + circuit" where
  "superdense_coder tbl bitstring =
     (case parse_bits tbl bitstring of
        Inl e \<Rightarrow> Inl e
      | Inr bits \<Rightarrow> build_circuit bits)"

text \<open>
  Inputs: a binary string has the characters \<open>0\<close> and \<open>1\<close> only; a character is a
  binary digit for \<^verbatim>\<open>int(i, 2)\<close> when it is a decimal digit of value 0 or 1.
\<close>

definition binary_string :: "pystr \<Rightarrow> bool" where
  "binary_string bs = list_all (\<lambda>ch. ch = 48 \<or> ch = 49) bs"

definition binary_digit :: "(codepoint \<Rightarrow> nat option) \<Rightarrow> codepoint \<Rightarrow> bool" where
  "binary_digit tbl ch \<longleftrightarrow> decimal_value tbl ch = Some 0 \<or> decimal_value tbl ch = Some 1"

text \<open>
  Two tables of decimal digits beyond ASCII: the empty one, and the one that knows the
  Arabic-Indic digits U+0660 to U+0669 (the code points 1632 to 1641), which are decimal
  digits of the values 0 to 9.
\<close>

definition ascii_digits_only :: "codepoint \<Rightarrow> nat option" where
  "ascii_digits_only ch = None"

definition arabic_indic_digits :: "codepoint \<Rightarrow> nat option" where
  "arabic_indic_digits ch = (if 1632 \<le> ch \<and> ch \<le> 1641 then Some (ch - 1632) else None)"

text \<open>
  The instructions that each of the three loops appends for \<open>N\<close> pairs, written out:
  one Bell preparation per pair, the X and Z gates of the bit pairs, one decoding per
  pair.
\<close>

definition bell_section :: "nat \<Rightarrow> gate list" where
  "bell_section N =
     concat (map (\<lambda>(q_a, q_b). [GateH q_a, GateCX q_a q_b]) (zip [0..<N] [N..<2 * N]))"

definition encode_section :: "nat list \<Rightarrow> gate list" where
  "encode_section bits =
     concat (map (\<lambda>(q_a, bit_pair).
                    (if fst bit_pair \<noteq> 0 then [GateX q_a] else [])
                    @ (if snd bit_pair \<noteq> 0 then [GateZ q_a] else []))
               (enumerate 0 (reshape2 bits)))"

definition decode_section :: "nat \<Rightarrow> gate list" where
  "decode_section N =
     concat (map (\<lambda>(q_a, q_b). [GateCX q_a q_b, GateH q_a]) (zip [0..<N] [N..<2 * N]))"

text \<open>
  One shared pair on its own: carrier A is qubit 0, carrier B is qubit 1; the pair is
  prepared, encoded, decoded and measured.
\<close>

definition pair_circuit :: "bool \<Rightarrow> bool \<Rightarrow> error + circuit" where
  "pair_circuit b0 b1 =
     (case prepare_bell_state (QuantumCircuit 1 1) 0 1 of
        Inl e \<Rightarrow> Inl e
      | Inr c \<Rightarrow>
          (case encode_bits c 0 b0 b1 of
             Inl e \<Rightarrow> Inl e
           | Inr c \<Rightarrow>
               (case decode_bits c 0 1 of
                  Inl e \<Rightarrow> Inl e
                | Inr c \<Rightarrow> Inr (circuit_measure_all c))))"

text \<open>
  The circuit of the notebook's example, \<^verbatim>\<open>superdense_coder("001101")\<close>, written
  out: three pairs, qubits 0 to 2 are Alice's and qubits 3 to 5 are Bob's.
\<close>

definition circuit_001101 :: circuit where
  "circuit_001101 =
     \<lparr>n_qubits = 6,
      gates = [GateH 0, GateCX 0 3, GateH 1, GateCX 1 4, GateH 2, GateCX 2 5, Barrier,
               GateX 1, GateZ 1, GateZ 2, Barrier,
               GateCX 0 3, GateH 0, GateCX 1 4, GateH 1, GateCX 2 5, GateH 2, MeasureAll]\<rparr>"

subsection \<open>The canonical bit string\<close>

definition canonical_bitstring :: "'a list \<Rightarrow> 'a list" where
  "canonical_bitstring bs =
     (let N = length bs div 2
      in concat (map (\<lambda>i. [bs ! (i + N), bs ! i]) [0..<N]))"

text \<open>
  The position of the input that the loop reads for position \<open>j\<close> of the output: the
  first append of round \<open>i\<close> fills position \<open>2 * i\<close> from \<open>i + N\<close>, the second
  fills position \<open>2 * i + 1\<close> from \<open>i\<close>.
\<close>

definition canonical_index :: "nat \<Rightarrow> nat \<Rightarrow> nat" where
  "canonical_index N j = (if even j then j div 2 + N else j div 2)"

text \<open>
  The inverse index mapping is not in the notebook; it is the mapping that undoes
  \<open>canonical_index\<close>, and \<open>uncanonical_bitstring\<close> reindexes a string with it.
\<close>

definition inverse_index :: "nat \<Rightarrow> nat \<Rightarrow> nat" where
  "inverse_index N k = (if k < N then 2 * k + 1 else 2 * (k - N))"

definition uncanonical_bitstring :: "'a list \<Rightarrow> 'a list" where
  "uncanonical_bitstring cs =
     (let N = length cs div 2
      in map (\<lambda>k. cs ! inverse_index N k) [0..<2 * N])"

subsection \<open>The noiseless backend\<close>

text \<open>
  The simulator is the library's, not the notebook's. Its noiseless behaviour is the
  textbook one: a register of \<open>n\<close> qubits is a vector of \<open>2 ^ n\<close> amplitudes, indexed by
  the basis states, qubit \<open>q\<close> being bit \<open>q\<close> of the index; each gate is its standard
  matrix. The four gates used here have real entries, and the only irrational one is
  the factor \<open>1 / sqrt 2\<close> of the Hadamard gate, so a state is kept exactly as a vector of
  integers together with the number \<open>hcount\<close> of Hadamard gates applied so far: the
  amplitude of basis state \<open>i\<close> is \<open>amps ! i / (sqrt 2) ^ hcount\<close>, and the
  probability of measuring \<open>i\<close> is \<open>(amps ! i)\<^sup>2 / 2 ^ hcount\<close>.
\<close>

record qstate =
  amps :: "int list"
  hcount :: nat

definition init_state :: "nat \<Rightarrow> qstate" where
  "init_state n = \<lparr>amps = 1 # replicate (2 ^ n - 1) 0, hcount = 0\<rparr>"

definition flip_qubit :: "nat \<Rightarrow> nat \<Rightarrow> nat" where
  "flip_qubit q i = (if bit i q then i - 2 ^ q else i + 2 ^ q)"

fun apply_gate :: "gate \<Rightarrow> qstate \<Rightarrow> qstate" where
  "apply_gate (GateX q) s =
     s\<lparr>amps := map (\<lambda>i. amps s ! flip_qubit q i) [0..<length (amps s)]\<rparr>"
| "apply_gate (GateZ q) s =
     s\<lparr>amps := map (\<lambda>i. if bit i q then - (amps s ! i) else amps s ! i)
                  [0..<length (amps s)]\<rparr>"
| "apply_gate (GateCX ctl tgt) s =
     s\<lparr>amps := map (\<lambda>i. amps s ! (if bit i ctl then flip_qubit tgt i else i))
                  [0..<length (amps s)]\<rparr>"
| "apply_gate (GateH q) s =
     \<lparr>amps = map (\<lambda>i. if bit i q then amps s ! (i - 2 ^ q) - amps s ! i
                       else amps s ! i + amps s ! (i + 2 ^ q))
                 [0..<length (amps s)],
      hcount = Suc (hcount s)\<rparr>"
| "apply_gate Barrier s = s"
| "apply_gate MeasureAll s = s"

definition run_gates :: "gate list \<Rightarrow> qstate \<Rightarrow> qstate" where
  "run_gates gs s = foldl (\<lambda>s g. apply_gate g s) s gs"

definition final_state :: "circuit \<Rightarrow> qstate" where
  "final_state c = run_gates (gates c) (init_state (n_qubits c))"

definition outcome_probability :: "qstate \<Rightarrow> nat \<Rightarrow> rat" where
  "outcome_probability s i = of_int ((amps s ! i)\<^sup>2) / 2 ^ hcount s"

text \<open>
  The key under which the backend reports basis state \<open>i\<close> of \<open>n\<close> measured qubits:
  one character per qubit, qubit \<open>0\<close> last.
\<close>

definition bit_char :: "bool \<Rightarrow> codepoint" where
  "bit_char b = (if b then 49 else 48)"

definition qiskit_key :: "nat \<Rightarrow> nat \<Rightarrow> pystr" where
  "qiskit_key n i = map (\<lambda>k. bit_char (bit i (n - 1 - k))) [0..<n]"

definition possible_keys :: "circuit \<Rightarrow> pystr list" where
  "possible_keys c =
     map (qiskit_key (n_qubits c))
       (filter (\<lambda>i. amps (final_state c) ! i \<noteq> 0) [0..<2 ^ n_qubits c])"

text \<open>
  The basis state of a pair in which carrier B reads \<open>b0\<close> and carrier A reads \<open>b1\<close>.
\<close>

definition pair_outcome :: "bool \<Rightarrow> bool \<Rightarrow> nat" where
  "pair_outcome b0 b1 = (if b1 then 1 else 0) + (if b0 then 2 else 0)"

text \<open>
  The state of register B alone, for a circuit of \<open>N\<close> pairs: qubits \<open>0\<close> to \<open>N - 1\<close> are
  Alice's, qubits \<open>N\<close> to \<open>2 * N - 1\<close> are Bob's, so basis state \<open>a + x * 2 ^ N\<close> has
  Alice's qubits in \<open>a\<close> and Bob's in \<open>x\<close>. Entry \<open>(x, y)\<close> of the reduced density matrix
  of register B is the sum below, divided by \<open>2 ^ hcount\<close>.
\<close>

definition register_b_density :: "nat \<Rightarrow> qstate \<Rightarrow> nat \<Rightarrow> nat \<Rightarrow> int" where
  "register_b_density N s x y =
     sum_list (map (\<lambda>a. amps s ! (a + x * 2 ^ N) * amps s ! (a + y * 2 ^ N)) [0..<2 ^ N])"

text \<open>
  A table of counts that a noiseless run of \<open>shots\<close> samples can report: one entry per
  observed outcome, every observed outcome has positive probability, and the counts add
  up to the number of samples.
\<close>

definition noiseless_counts :: "circuit \<Rightarrow> nat \<Rightarrow> (pystr \<times> nat) list \<Rightarrow> bool" where
  "noiseless_counts c shots counts \<longleftrightarrow>
     distinct (map fst counts) \<and>
     list_all (\<lambda>(bs, count). bs \<in> set (possible_keys c) \<and> 0 < count) counts \<and>
     sum_list (map snd counts) = shots"

subsection \<open>Simulating a circuit\<close>

text \<open>
  \<open>run\<close> stands for \<^verbatim>\<open>sim.run(tqc, n_samples).result().get_counts(circuit)\<close>: the
  backend's answer, as a list of the items of the dictionary, to the two positional
  arguments the notebook passes. Transpiling rewrites the circuit for the backend and
  keeps its meaning; it is the identity here. The dictionary comprehension stores the
  items one after the other.
\<close>

definition transpile :: "circuit \<Rightarrow> circuit" where
  "transpile c = c"

definition simulate_circuit ::
  "(circuit \<Rightarrow> nat \<Rightarrow> (pystr \<times> nat) list) \<Rightarrow> circuit \<Rightarrow> nat \<Rightarrow> (pystr \<rightharpoonup> nat)" where
  "simulate_circuit run c n_samples =
     (let tqc = transpile c;
          counts = run tqc n_samples
      in foldl (\<lambda>d (bs, count). d(canonical_bitstring (rev bs) \<mapsto> count)) Map.empty counts)"

definition default_n_samples :: nat where
  "default_n_samples = 1000"

subsection \<open>The backend's \<open>run\<close>\<close>

text \<open>
  The signature of the backend's method is
  \<^verbatim>\<open>run(circuits, validate=False, parameter_binds=None, **run_options)\<close>:
  its second positional parameter is \<open>validate\<close>, the number of samples is the run
  option \<open>shots\<close>, and it is 1024 when the option is not given. The notebook's recorded output agrees: the call
  \<^verbatim>\<open>simulate_circuit(circuit)\<close>, with \<open>n_samples\<close> at its default 1000, printed
  \<^verbatim>\<open>"001101": observed 1024 times\<close>. \<open>sampler\<close> is the backend's sampling of a
  circuit for a number of shots.
\<close>

definition aer_default_shots :: nat where
  "aer_default_shots = 1024"

definition aer_run ::
  "(circuit \<Rightarrow> nat \<Rightarrow> (pystr \<times> nat) list) \<Rightarrow> circuit \<Rightarrow> nat \<Rightarrow> (pystr \<times> nat) list" where
  "aer_run sampler circuits validate = sampler circuits aer_default_shots"

text \<open>One noiseless sampler: every sample is the first outcome that is possible.\<close>

definition first_outcome_sampler :: "circuit \<Rightarrow> nat \<Rightarrow> (pystr \<times> nat) list" where
  "first_outcome_sampler c shots =
     (case possible_keys c of
        [] \<Rightarrow> []
      | k # _ \<Rightarrow> if shots = 0 then [] else [(k, shots)])"

section \<open>Properties\<close>

subsection \<open>What the building blocks append\<close>

lemma gates_append_gate [simp]: "gates (append_gate c g) = gates c @ [g]"
  by (simp add: append_gate_def)

lemma n_qubits_append_gate [simp]: "n_qubits (append_gate c g) = n_qubits c"
  by (simp add: append_gate_def)

lemma prepare_bell_state_result:
  "prepare_bell_state c a b =
     (if a < n_qubits c \<and> b < n_qubits c \<and> a \<noteq> b
      then Inr (c\<lparr>gates := gates c @ [GateH a, GateCX a b]\<rparr>)
      else Inl CircuitError)"
  by (simp add: prepare_bell_state_def circuit_h_def circuit_cx_def append_checked_def
                append_gate_def)

lemma encode_bits_result:
  "encode_bits c q b0 b1 =
     (if (b0 \<or> b1) \<and> \<not> q < n_qubits c then Inl CircuitError
      else Inr (c\<lparr>gates := gates c @ (if b0 then [GateX q] else [])
                                    @ (if b1 then [GateZ q] else [])\<rparr>))"
  by (simp add: encode_bits_def circuit_x_def circuit_z_def append_checked_def append_gate_def)

lemma decode_bits_result:
  "decode_bits c q_a q_b =
     (if q_a < n_qubits c \<and> q_b < n_qubits c \<and> q_a \<noteq> q_b
      then Inr (c\<lparr>gates := gates c @ [GateCX q_a q_b, GateH q_a]\<rparr>)
      else Inl CircuitError)"
  by (simp add: decode_bits_def circuit_h_def circuit_cx_def append_checked_def append_gate_def)

text \<open>A loop whose body appends instructions to the circuit, and never fails on the list.\<close>

lemma for_each_appends:
  assumes "\<And>c x. x \<in> set xs \<Longrightarrow> n_qubits c = n \<Longrightarrow> body c x = Inr (c\<lparr>gates := gates c @ f x\<rparr>)"
    and "n_qubits c = n"
  shows "for_each body c xs = Inr (c\<lparr>gates := gates c @ concat (map f xs)\<rparr>)"
  using assms
proof (induction xs arbitrary: c)
  case Nil
  then show ?case by simp
next
  case (Cons x xs)
  have step: "body c x = Inr (c\<lparr>gates := gates c @ f x\<rparr>)"
    using Cons.prems by simp
  have "for_each body (c\<lparr>gates := gates c @ f x\<rparr>) xs
          = Inr (c\<lparr>gates := gates c @ f x\<rparr>
                  \<lparr>gates := gates (c\<lparr>gates := gates c @ f x\<rparr>) @ concat (map f xs)\<rparr>)"
    using Cons.prems by (intro Cons.IH) simp_all
  with step show ?case by simp
qed

subsection \<open>Gates on the state of one pair\<close>

lemma upt4: "[0..<4] = [0, 1, 2, 3]"
  by (simp add: upt_rec numeral_eq_Suc)

lemma gate_cx_pair:
  "apply_gate (GateCX 0 1) \<lparr>amps = [v0, v1, v2, v3], hcount = h\<rparr>
     = \<lparr>amps = [v0, v3, v2, v1], hcount = h\<rparr>"
  by (simp add: flip_qubit_def upt4 bit_nat_def)

lemma gate_h_pair:
  "apply_gate (GateH 0) \<lparr>amps = [v0, v1, v2, v3], hcount = h\<rparr>
     = \<lparr>amps = [v0 + v1, v0 - v1, v2 + v3, v2 - v3], hcount = Suc h\<rparr>"
  by (simp add: upt4 bit_nat_def)

lemma gate_x_pair:
  "apply_gate (GateX 0) \<lparr>amps = [v0, v1, v2, v3], hcount = h\<rparr>
     = \<lparr>amps = [v1, v0, v3, v2], hcount = h\<rparr>"
  by (simp add: flip_qubit_def upt4 bit_nat_def)

lemma gate_z_pair:
  "apply_gate (GateZ 0) \<lparr>amps = [v0, v1, v2, v3], hcount = h\<rparr>
     = \<lparr>amps = [v0, - v1, v2, - v3], hcount = h\<rparr>"
  by (simp add: upt4 bit_nat_def)

lemma decode_pair_state:
  "run_gates [GateCX 0 1, GateH 0] \<lparr>amps = [v0, v1, v2, v3], hcount = h\<rparr>
     = \<lparr>amps = [v0 + v3, v0 - v3, v2 + v1, v2 - v1], hcount = Suc h\<rparr>"
  by (simp only: run_gates_def foldl.simps gate_cx_pair gate_h_pair)

lemma init_pair: "init_state 2 = \<lparr>amps = [1, 0, 0, 0], hcount = 0\<rparr>"
  by (simp add: init_state_def numeral_eq_Suc)

lemma pair_circuit_result:
  "pair_circuit b0 b1 =
     Inr \<lparr>n_qubits = 2,
          gates = [GateH 0, GateCX 0 1] @ (if b0 then [GateX 0] else [])
                    @ (if b1 then [GateZ 0] else []) @ [GateCX 0 1, GateH 0, MeasureAll]\<rparr>"
  by (simp add: pair_circuit_def prepare_bell_state_result encode_bits_result
                decode_bits_result circuit_measure_all_def append_gate_def QuantumCircuit_def)

lemma final_state_pair_circuit:
  assumes "pair_circuit b0 b1 = Inr c"
  shows "final_state c =
     \<lparr>amps = (if b0 then (if b1 then [0, 0, 0, 2] else [0, 0, 2, 0])
                    else (if b1 then [0, 2, 0, 0] else [2, 0, 0, 0])),
       hcount = 2\<rparr>"
proof -
  from assms have c: "n_qubits c = 2"
    "gates c = [GateH 0, GateCX 0 1] @ (if b0 then [GateX 0] else [])
                 @ (if b1 then [GateZ 0] else []) @ [GateCX 0 1, GateH 0, MeasureAll]"
    by (auto simp: pair_circuit_result)
  show ?thesis
    by (cases b0; cases b1)
       (simp_all only: final_state_def c init_pair
          run_gates_def if_True if_False append.simps foldl.simps
          gate_cx_pair gate_h_pair gate_x_pair gate_z_pair apply_gate.simps(6), simp_all)
qed

lemma pair_outcome_simps:
  "pair_outcome False False = 0" "pair_outcome False True = 1"
  "pair_outcome True False = 2" "pair_outcome True True = 3"
  by (simp_all add: pair_outcome_def)

lemma qiskit_key_pair:
  "qiskit_key 2 0 = [48, 48]" "qiskit_key 2 (Suc 0) = [48, 49]"
  "qiskit_key 2 2 = [49, 48]" "qiskit_key 2 3 = [49, 49]"
  by code_simp+

lemma canonical_bitstring_pair: "canonical_bitstring [x, y] = [y, x]"
  by (simp add: canonical_bitstring_def)

lemma canonical_pair_key:
  "canonical_bitstring (rev (qiskit_key 2 (pair_outcome b0 b1))) = [bit_char b0, bit_char b1]"
  by (cases b0; cases b1)
     (simp_all add: pair_outcome_simps qiskit_key_pair canonical_bitstring_pair bit_char_def)

lemma possible_keys_pair_circuit:
  assumes "pair_circuit b0 b1 = Inr c"
  shows "possible_keys c = [qiskit_key 2 (pair_outcome b0 b1)]"
proof -
  from assms have "n_qubits c = 2"
    by (auto simp: pair_circuit_result)
  then show ?thesis
    by (cases b0; cases b1)
       (simp_all add: possible_keys_def final_state_pair_circuit [OF assms] upt4
          pair_outcome_simps)
qed

lemma probability_pair_circuit:
  assumes "pair_circuit b0 b1 = Inr c" and "i < 4"
  shows "outcome_probability (final_state c) i = (if i = pair_outcome b0 b1 then 1 else 0)"
proof -
  from \<open>i < 4\<close> have "i = 0 \<or> i = 1 \<or> i = 2 \<or> i = 3" by arith
  then show ?thesis
    by (cases b0; cases b1)
       (auto simp: outcome_probability_def final_state_pair_circuit [OF assms(1)]
          pair_outcome_def)
qed

subsection \<open>Encoding and decoding\<close>

text \<open>
  C5, as stated, says that \<open>encode_bits\<close> never raises an error for boolean bits. It
  does when \<open>q\<close> is not a qubit of the circuit and a bit is true: the library call
  \<^verbatim>\<open>circuit.x(5)\<close> on a circuit of two qubits raises.
\<close>

theorem encode_bits_outside_circuit_counterexample:
  "isl (encode_bits (QuantumCircuit 1 1) 5 True False)
   \<and> encode_bits (QuantumCircuit 1 1) 5 True False = Inl CircuitError"
  by (simp add: encode_bits_result QuantumCircuit_def)

text \<open>
  C5, amended: for \<open>q\<close> a qubit of the circuit, \<open>encode_bits\<close> appends the X gate on \<open>q\<close>
  exactly when \<open>b0\<close> holds and the Z gate on \<open>q\<close> exactly when \<open>b1\<close> holds, X before Z,
  and nothing else, and it never raises an error, whatever the two booleans are. For
  two false bits it returns the circuit as it was, for every \<open>q\<close>. For a \<open>q\<close> that the
  circuit does not have it raises the library's error as soon as one bit is true, and
  these are all the cases.
\<close>

theorem encode_bits_gates:
  "(q < n_qubits c \<longrightarrow>
      \<not> isl (encode_bits c q b0 b1)
      \<and> (\<exists>new. encode_bits c q b0 b1 = Inr (c\<lparr>gates := gates c @ new\<rparr>)
            \<and> new = (if b0 then [GateX q] else []) @ (if b1 then [GateZ q] else [])
            \<and> (GateX q \<in> set new \<longleftrightarrow> b0) \<and> (GateZ q \<in> set new \<longleftrightarrow> b1)
            \<and> length new = (if b0 then 1 else 0) + (if b1 then 1 else 0)))
   \<and> encode_bits c q False False = Inr c
   \<and> (\<not> q < n_qubits c \<and> (b0 \<or> b1) \<longrightarrow> encode_bits c q b0 b1 = Inl CircuitError)"
  by (simp add: encode_bits_result)

theorem encode_bits_gates_witness:
  "(0::nat) < n_qubits (QuantumCircuit 1 1)
   \<and> \<not> isl (encode_bits (QuantumCircuit 1 1) 0 True False)
   \<and> encode_bits (QuantumCircuit 1 1) 0 True False = Inr \<lparr>n_qubits = 2, gates = [GateX 0]\<rparr>
   \<and> \<not> (7::nat) < n_qubits (QuantumCircuit 1 1)
   \<and> encode_bits (QuantumCircuit 1 1) 7 False True = Inl CircuitError"
proof -
  have a: "(0::nat) < n_qubits (QuantumCircuit 1 1)"
    and b: "\<not> (7::nat) < n_qubits (QuantumCircuit 1 1)"
    by (simp_all add: QuantumCircuit_def)
  note fact1 = encode_bits_gates [of 0 "QuantumCircuit 1 1" True False]
  note fact2 = encode_bits_gates [of 7 "QuantumCircuit 1 1" False True]
  from fact1 a have 1: "\<not> isl (encode_bits (QuantumCircuit 1 1) 0 True False)"
    by blast
  from fact1 a obtain new
    where "encode_bits (QuantumCircuit 1 1) 0 True False
             = Inr ((QuantumCircuit 1 1)\<lparr>gates := gates (QuantumCircuit 1 1) @ new\<rparr>)"
      and "new = (if True then [GateX 0] else []) @ (if False then [GateZ 0] else [])"
    by blast
  then have 2: "encode_bits (QuantumCircuit 1 1) 0 True False
                  = Inr \<lparr>n_qubits = 2, gates = [GateX 0]\<rparr>"
    by (simp add: QuantumCircuit_def)
  from fact2 b have 3: "encode_bits (QuantumCircuit 1 1) 7 False True = Inl CircuitError"
    by blast
  from a b 1 2 3 show ?thesis by blast
qed

text \<open>
  C6: on two distinct carriers of the circuit \<open>decode_bits\<close> appends exactly two
  instructions, the CNOT with control \<open>q_a\<close> and target \<open>q_b\<close> first and the Hadamard
  gate on \<open>q_a\<close> second (otherwise the library refuses the CNOT and nothing is
  appended). On the state of a pair (carrier A is qubit 0, carrier B is qubit 1) the
  two together send the amplitudes \<open>v0, v1, v2, v3\<close> to the sums and differences that a
  measurement in the computational basis then tells apart.
\<close>

theorem decode_bits_gates:
  "decode_bits c q_a q_b =
     (if q_a < n_qubits c \<and> q_b < n_qubits c \<and> q_a \<noteq> q_b
      then Inr (c\<lparr>gates := gates c @ [GateCX q_a q_b, GateH q_a]\<rparr>)
      else Inl CircuitError)
   \<and> (\<exists>c'. decode_bits (QuantumCircuit 1 1) 0 1 = Inr c'
          \<and> run_gates (gates c') \<lparr>amps = [v0, v1, v2, v3], hcount = h\<rparr>
              = \<lparr>amps = [v0 + v3, v0 - v3, v2 + v1, v2 - v1], hcount = Suc h\<rparr>)"
proof -
  have "decode_bits (QuantumCircuit 1 1) 0 1 = Inr \<lparr>n_qubits = 2, gates = [GateCX 0 1, GateH 0]\<rparr>"
    by (simp add: decode_bits_result QuantumCircuit_def)
  moreover have "run_gates (gates \<lparr>n_qubits = 2, gates = [GateCX 0 1, GateH 0]\<rparr>)
                   \<lparr>amps = [v0, v1, v2, v3], hcount = h\<rparr>
                 = \<lparr>amps = [v0 + v3, v0 - v3, v2 + v1, v2 - v1], hcount = Suc h\<rparr>"
    by (simp only: circuit.simps decode_pair_state)
  ultimately show ?thesis
    using decode_bits_result [of c q_a q_b] by blast
qed

subsection \<open>The canonical bit string is a reindexing\<close>

lemma length_concat_pairs:
  "length (concat (map (\<lambda>i. [f i, g i]) [0..<n])) = 2 * n"
  by (induction n) simp_all

lemma nth_concat_pairs:
  "j < 2 * n \<Longrightarrow>
   concat (map (\<lambda>i. [f i, g i]) [0..<n]) ! j = (if even j then f (j div 2) else g (j div 2))"
proof (induction n)
  case 0
  then show ?case by simp
next
  case (Suc n)
  show ?case
  proof (cases "j < 2 * n")
    case True
    with Suc.IH show ?thesis
      by (simp add: nth_append length_concat_pairs)
  next
    case False
    with Suc.prems have "j = 2 * n \<or> j = 2 * n + 1" by arith
    then show ?thesis
      by (auto simp: nth_append length_concat_pairs)
  qed
qed

lemma length_canonical_bitstring:
  "length (canonical_bitstring bs) = 2 * (length bs div 2)"
  by (simp add: canonical_bitstring_def Let_def length_concat_pairs)

lemma nth_canonical_bitstring:
  "j < 2 * (length bs div 2) \<Longrightarrow>
   canonical_bitstring bs ! j =
     (if even j then bs ! (j div 2 + length bs div 2) else bs ! (j div 2))"
  by (simp add: canonical_bitstring_def Let_def nth_concat_pairs)

text \<open>
  C2: on a string of length \<open>2 * N\<close> the output has the same length, its position
  \<open>2 * i\<close> holds the input's position \<open>i + N\<close> and its position \<open>2 * i + 1\<close> holds the
  input's position \<open>i\<close>, for every pair index \<open>i < N\<close>.
\<close>

theorem canonical_bitstring_reindex:
  assumes "length bs = 2 * N" and "i < N"
  shows "length (canonical_bitstring bs) = 2 * N
       \<and> canonical_bitstring bs ! (2 * i) = bs ! (i + N)
       \<and> canonical_bitstring bs ! (2 * i + 1) = bs ! i"
  using assms by (simp add: length_canonical_bitstring nth_canonical_bitstring)

theorem canonical_bitstring_reindex_witness:
  "length ''abcdef'' = 2 * 3 \<and> (1::nat) < 3
   \<and> length (canonical_bitstring ''abcdef'') = 2 * 3
   \<and> canonical_bitstring ''abcdef'' ! (2 * 1) = ''abcdef'' ! (1 + 3)
   \<and> canonical_bitstring ''abcdef'' ! (2 * 1 + 1) = ''abcdef'' ! 1"
  using canonical_bitstring_reindex [of "''abcdef''" 3 1] by simp

subsection \<open>The canonical bit string is a bijection\<close>

lemma canonical_bitstring_as_map:
  "canonical_bitstring bs =
     map (\<lambda>j. bs ! canonical_index (length bs div 2) j) [0..<2 * (length bs div 2)]"
  by (rule nth_equalityI)
     (simp_all add: length_canonical_bitstring nth_canonical_bitstring canonical_index_def)

lemma canonical_index_less: "j < 2 * N \<Longrightarrow> canonical_index N j < 2 * N"
  unfolding canonical_index_def by (cases "even j") (auto elim!: evenE oddE)

lemma inverse_index_less: "k < 2 * N \<Longrightarrow> inverse_index N k < 2 * N"
  unfolding inverse_index_def by auto

lemma inverse_canonical_index: "j < 2 * N \<Longrightarrow> inverse_index N (canonical_index N j) = j"
  unfolding canonical_index_def inverse_index_def by (cases "even j") (auto elim!: evenE oddE)

lemma canonical_inverse_index: "k < 2 * N \<Longrightarrow> canonical_index N (inverse_index N k) = k"
  unfolding canonical_index_def inverse_index_def by auto

lemma canonical_index_bij: "bij_betw (canonical_index N) {0..<2 * N} {0..<2 * N}"
  by (rule bij_betw_byWitness [where f' = "inverse_index N"])
     (auto simp: canonical_index_less inverse_index_less
                 inverse_canonical_index canonical_inverse_index)

lemma length_uncanonical_bitstring:
  "length (uncanonical_bitstring cs) = 2 * (length cs div 2)"
  by (simp add: uncanonical_bitstring_def Let_def)

lemma uncanonical_canonical:
  assumes "length bs = 2 * N"
  shows "uncanonical_bitstring (canonical_bitstring bs) = bs"
proof (rule nth_equalityI)
  show "length (uncanonical_bitstring (canonical_bitstring bs)) = length bs"
    using assms by (simp add: length_uncanonical_bitstring length_canonical_bitstring)
next
  fix k assume "k < length (uncanonical_bitstring (canonical_bitstring bs))"
  then have k: "k < 2 * N"
    using assms by (simp add: length_uncanonical_bitstring length_canonical_bitstring)
  have "uncanonical_bitstring (canonical_bitstring bs) ! k
          = canonical_bitstring bs ! inverse_index N k"
    using k assms by (simp add: uncanonical_bitstring_def Let_def length_canonical_bitstring)
  also have "\<dots> = bs ! canonical_index N (inverse_index N k)"
    using k assms inverse_index_less [OF k]
    by (subst canonical_bitstring_as_map) simp
  also have "\<dots> = bs ! k"
    using k by (simp add: canonical_inverse_index)
  finally show "uncanonical_bitstring (canonical_bitstring bs) ! k = bs ! k" .
qed

lemma canonical_uncanonical:
  assumes "length cs = 2 * N"
  shows "canonical_bitstring (uncanonical_bitstring cs) = cs"
proof (rule nth_equalityI)
  show "length (canonical_bitstring (uncanonical_bitstring cs)) = length cs"
    using assms by (simp add: length_uncanonical_bitstring length_canonical_bitstring)
next
  fix j assume "j < length (canonical_bitstring (uncanonical_bitstring cs))"
  then have j: "j < 2 * N"
    using assms by (simp add: length_uncanonical_bitstring length_canonical_bitstring)
  have "canonical_bitstring (uncanonical_bitstring cs) ! j
          = uncanonical_bitstring cs ! canonical_index N j"
    using j assms
    by (subst canonical_bitstring_as_map) (simp add: length_uncanonical_bitstring)
  also have "\<dots> = cs ! inverse_index N (canonical_index N j)"
    using j assms canonical_index_less [OF j]
    by (simp add: uncanonical_bitstring_def Let_def)
  also have "\<dots> = cs ! j"
    using j by (simp add: inverse_canonical_index)
  finally show "canonical_bitstring (uncanonical_bitstring cs) ! j = cs ! j" .
qed

lemma canonical_bitstring_bij:
  "bij_betw canonical_bitstring {bs :: 'a list. length bs = 2 * N} {bs. length bs = 2 * N}"
  by (rule bij_betw_byWitness [where f' = uncanonical_bitstring])
     (auto simp: uncanonical_canonical canonical_uncanonical
                 length_uncanonical_bitstring length_canonical_bitstring)

text \<open>
  C3: on the strings of length \<open>2 * N\<close>, \<open>canonical_bitstring\<close> reads the input through
  \<open>canonical_index\<close>, which is a bijection of the positions \<open>0, ..., 2 * N - 1\<close> with
  inverse \<open>inverse_index\<close>; so \<open>canonical_bitstring\<close> is a bijection on these strings,
  and reindexing its output with the inverse mapping gives the input back.
\<close>

theorem canonical_bitstring_bijection:
  "(\<forall>bs :: 'a list. length bs = 2 * N \<longrightarrow>
       canonical_bitstring bs = map (\<lambda>j. bs ! canonical_index N j) [0..<2 * N])
   \<and> bij_betw (canonical_index N) {0..<2 * N} {0..<2 * N}
   \<and> (\<forall>j<2 * N. inverse_index N (canonical_index N j) = j)
   \<and> (\<forall>k<2 * N. canonical_index N (inverse_index N k) = k)
   \<and> bij_betw canonical_bitstring {bs :: 'a list. length bs = 2 * N} {bs. length bs = 2 * N}
   \<and> (\<forall>bs :: 'a list. length bs = 2 * N \<longrightarrow>
         uncanonical_bitstring (canonical_bitstring bs) = bs)"
proof -
  have "canonical_bitstring bs = map (\<lambda>j. bs ! canonical_index N j) [0..<2 * N]"
    if "length bs = 2 * N" for bs :: "'a list"
    using canonical_bitstring_as_map [of bs] that by simp
  moreover have "uncanonical_bitstring (canonical_bitstring bs) = bs"
    if "length bs = 2 * N" for bs :: "'a list"
    using that by (rule uncanonical_canonical)
  ultimately show ?thesis
    using canonical_index_bij [of N] canonical_bitstring_bij [where ?'a = 'a, of N]
    by (simp add: inverse_canonical_index canonical_inverse_index)
qed

theorem canonical_bitstring_bijection_witness:
  "length ''abcd'' = 2 * 2
   \<and> canonical_bitstring ''abcd'' = ''cadb''
   \<and> canonical_bitstring ''abcd'' = map (\<lambda>j. ''abcd'' ! canonical_index 2 j) [0..<2 * 2]
   \<and> inverse_index 2 (canonical_index 2 3) = 3
   \<and> canonical_index 2 (inverse_index 2 3) = 3
   \<and> uncanonical_bitstring (canonical_bitstring ''abcd'') = ''abcd''"
proof -
  have len: "length ''abcd'' = 2 * 2" by simp
  have val: "canonical_bitstring ''abcd'' = ''cadb''" by code_simp
  note fact = canonical_bitstring_bijection [where ?'a = char, of 2]
  from fact len have 1: "canonical_bitstring ''abcd'' = map (\<lambda>j. ''abcd'' ! canonical_index 2 j) [0..<2 * 2]"
    by blast
  from fact have 2: "inverse_index 2 (canonical_index 2 3) = 3" by simp
  from fact have 3: "canonical_index 2 (inverse_index 2 3) = 3" by simp
  from fact len have 4: "uncanonical_bitstring (canonical_bitstring ''abcd'') = ''abcd''"
    by blast
  from len val 1 2 3 4 show ?thesis by blast
qed

subsection \<open>The loops of the coder\<close>

lemma zip_registers:
  "(a, b) \<in> set (zip [0..<N] [N..<2 * N]) \<Longrightarrow> a < N \<and> N \<le> b \<and> b < 2 * N"
  by (auto dest: set_zip_leftD set_zip_rightD)

lemma bell_phase_result:
  assumes "n_qubits c = 2 * N"
  shows "bell_phase N c = Inr (c\<lparr>gates := gates c @ bell_section N\<rparr>)"
  unfolding bell_phase_def bell_section_def
  by (rule for_each_appends [where n = "2 * N"])
     (auto simp: prepare_bell_state_result assms dest!: zip_registers)

lemma decode_phase_result:
  assumes "n_qubits c = 2 * N"
  shows "decode_phase N c = Inr (c\<lparr>gates := gates c @ decode_section N\<rparr>)"
  unfolding decode_phase_def decode_section_def
  by (rule for_each_appends [where n = "2 * N"])
     (auto simp: decode_bits_result assms dest!: zip_registers)

lemma length_reshape2: "length (reshape2 xs) = length xs div 2"
  by (induction xs rule: reshape2.induct) simp_all

lemma encode_phase_result:
  assumes "n_qubits c = 2 * (length bits div 2)"
  shows "encode_phase (reshape2 bits) c = Inr (c\<lparr>gates := gates c @ encode_section bits\<rparr>)"
  unfolding encode_phase_def encode_section_def
proof (rule for_each_appends [where n = "2 * (length bits div 2)"])
  fix c' :: circuit and x
  assume x: "x \<in> set (enumerate 0 (reshape2 bits))"
    and n: "n_qubits c' = 2 * (length bits div 2)"
  obtain q_a bit_pair where [simp]: "x = (q_a, bit_pair)" by (cases x)
  from x have "q_a < length bits div 2"
    by (simp add: in_set_enumerate_eq length_reshape2)
  with n have "q_a < n_qubits c'" by simp
  then show "(case x of (q_a, bit_pair) \<Rightarrow>
               encode_bits c' q_a (fst bit_pair \<noteq> 0) (snd bit_pair \<noteq> 0))
             = Inr (c'\<lparr>gates := gates c' @
                 (case x of (q_a, bit_pair) \<Rightarrow>
                    (if fst bit_pair \<noteq> 0 then [GateX q_a] else [])
                    @ (if snd bit_pair \<noteq> 0 then [GateZ q_a] else []))\<rparr>)"
    by (simp add: encode_bits_result)
qed (rule assms)

text \<open>The coder's circuit, written out: building it never fails.\<close>

lemma build_circuit_result:
  "build_circuit bits =
     Inr \<lparr>n_qubits = length bits div 2 + length bits div 2,
          gates = bell_section (length bits div 2) @ [Barrier] @ encode_section bits
                    @ [Barrier] @ decode_section (length bits div 2) @ [MeasureAll]\<rparr>"
proof -
  let ?N = "length bits div 2"
  let ?c0 = "QuantumCircuit ?N ?N"
  have n0: "n_qubits ?c0 = 2 * ?N"
    by (simp add: QuantumCircuit_def)
  have 1: "bell_phase ?N ?c0 = Inr (?c0\<lparr>gates := gates ?c0 @ bell_section ?N\<rparr>)"
    using n0 by (rule bell_phase_result)
  let ?c1 = "circuit_barrier (?c0\<lparr>gates := gates ?c0 @ bell_section ?N\<rparr>)"
  have n1: "n_qubits ?c1 = 2 * ?N"
    by (simp add: circuit_barrier_def QuantumCircuit_def)
  have 2: "encode_phase (reshape2 bits) ?c1 = Inr (?c1\<lparr>gates := gates ?c1 @ encode_section bits\<rparr>)"
    using n1 by (rule encode_phase_result)
  let ?c2 = "circuit_barrier (?c1\<lparr>gates := gates ?c1 @ encode_section bits\<rparr>)"
  have n2: "n_qubits ?c2 = 2 * ?N"
    by (simp add: circuit_barrier_def QuantumCircuit_def)
  have 3: "decode_phase ?N ?c2 = Inr (?c2\<lparr>gates := gates ?c2 @ decode_section ?N\<rparr>)"
    using n2 by (rule decode_phase_result)
  show ?thesis
    unfolding build_circuit_def Let_def
    by (simp only: 1 2 3 sum.case)
       (simp add: circuit_barrier_def circuit_measure_all_def append_gate_def QuantumCircuit_def)
qed

lemma build_circuit_succeeds: "\<not> isl (build_circuit bits)"
  by (simp add: build_circuit_result)

subsection \<open>The checks on the input\<close>

lemma int_base2_binary:
  "ch = 48 \<or> ch = 49 \<Longrightarrow> int_base2 tbl ch = Inr (ch - 48)"
  by (auto simp: int_base2_def decimal_value_def)

lemma int_list_binary:
  "binary_string bs \<Longrightarrow> int_list tbl bs = Inr (map (\<lambda>ch. ch - 48) bs)"
  by (induction bs) (auto simp: binary_string_def int_base2_binary)

lemma int_base2_reject:
  "\<not> binary_digit tbl ch \<Longrightarrow> int_base2 tbl ch = Inl ValueError"
  by (auto simp: int_base2_def binary_digit_def split: option.splits)

lemma int_list_error: "int_list tbl bs = Inl e \<Longrightarrow> e = ValueError"
  by (induction bs) (auto simp: int_base2_def split: option.splits sum.splits if_splits)

lemma int_list_reject:
  "ch \<in> set bs \<Longrightarrow> \<not> binary_digit tbl ch \<Longrightarrow> int_list tbl bs = Inl ValueError"
proof (induction bs)
  case Nil
  then show ?case by simp
next
  case (Cons a bs)
  show ?case
  proof (cases "int_base2 tbl a")
    case (Inl e)
    then have "e = ValueError"
      by (auto simp: int_base2_def split: option.splits if_splits)
    with Inl show ?thesis by simp
  next
    case (Inr d)
    with Cons.prems have "ch \<noteq> a"
      by (auto simp: int_base2_reject)
    with Cons have "int_list tbl bs = Inl ValueError" by simp
    with Inr show ?thesis by simp
  qed
qed

lemma ascii_not_binary_digit:
  "ch < 128 \<Longrightarrow> ch \<noteq> 48 \<Longrightarrow> ch \<noteq> 49 \<Longrightarrow> \<not> binary_digit tbl ch"
  by (auto simp: binary_digit_def decimal_value_def)

lemma superdense_coder_odd:
  "odd (length bs) \<Longrightarrow> superdense_coder tbl bs = Inl AssertionError"
  by (simp add: superdense_coder_def parse_bits_def odd_iff_mod_2_eq_one)

lemma parse_bits_binary:
  "even (length bs) \<Longrightarrow> binary_string bs \<Longrightarrow>
   parse_bits tbl bs = Inr (map (\<lambda>ch. ch - 48) bs)"
  by (simp add: parse_bits_def int_list_binary)

lemma superdense_coder_binary:
  "even (length bs) \<Longrightarrow> binary_string bs \<Longrightarrow>
   superdense_coder tbl bs = build_circuit (map (\<lambda>ch. ch - 48) bs)"
  by (simp add: superdense_coder_def parse_bits_binary)

text \<open>
  C4, as stated, says that the coder fails exactly on the inputs of odd length. It does
  not: an input of even length with a character that is no binary digit fails too, in
  the conversion of the characters.
\<close>

theorem superdense_coder_odd_only_counterexample:
  "even (length (str ''0a''))
   \<and> isl (superdense_coder ascii_digits_only (str ''0a''))
   \<and> superdense_coder ascii_digits_only (str ''0a'') = Inl ValueError"
  by (simp add: str_def superdense_coder_def parse_bits_def int_base2_def decimal_value_def)

text \<open>
  C4, amended: the coder fails by its assertion exactly when the length of the input is
  odd, and then before anything of the circuit exists (the checks come first and no
  circuit is returned); on a binary string it fails if and only if the length is odd,
  and on every binary string of even length the checks pass and construction proceeds:
  the coder returns the circuit built from the bits.
\<close>

theorem superdense_coder_failure:
  "(odd (length bs) \<longrightarrow> parse_bits tbl bs = Inl AssertionError
                        \<and> superdense_coder tbl bs = Inl AssertionError)
   \<and> (superdense_coder tbl bs = Inl AssertionError \<longleftrightarrow> odd (length bs))
   \<and> (binary_string bs \<longrightarrow>
        (isl (superdense_coder tbl bs) \<longleftrightarrow> odd (length bs))
        \<and> (even (length bs) \<longrightarrow>
             parse_bits tbl bs = Inr (map (\<lambda>ch. ch - 48) bs)
             \<and> superdense_coder tbl bs = build_circuit (map (\<lambda>ch. ch - 48) bs)
             \<and> \<not> isl (build_circuit (map (\<lambda>ch. ch - 48) bs))))"
proof -
  have 1: "parse_bits tbl bs = Inl AssertionError" if "odd (length bs)"
    using that by (simp add: parse_bits_def odd_iff_mod_2_eq_one)
  have 2: "odd (length bs)" if "superdense_coder tbl bs = Inl AssertionError"
  proof (rule ccontr)
    assume even: "\<not> odd (length bs)"
    show False
    proof (cases "int_list tbl bs")
      case (Inl e)
      with even that have "e = AssertionError"
        by (simp add: superdense_coder_def parse_bits_def)
      with Inl show False using int_list_error by blast
    next
      case (Inr bits)
      with even that have "build_circuit bits = Inl AssertionError"
        by (simp add: superdense_coder_def parse_bits_def)
      then show False by (simp add: build_circuit_result)
    qed
  qed
  have 3: "isl (superdense_coder tbl bs) \<longleftrightarrow> odd (length bs)" if "binary_string bs"
  proof (cases "odd (length bs)")
    case True
    then show ?thesis by (simp add: superdense_coder_odd)
  next
    case False
    with that show ?thesis
      by (simp add: superdense_coder_binary build_circuit_succeeds)
  qed
  have 4: "parse_bits tbl bs = Inr (map (\<lambda>ch. ch - 48) bs)
           \<and> superdense_coder tbl bs = build_circuit (map (\<lambda>ch. ch - 48) bs)
           \<and> \<not> isl (build_circuit (map (\<lambda>ch. ch - 48) bs))"
    if "binary_string bs" "even (length bs)"
    using that by (simp add: superdense_coder_binary parse_bits_binary build_circuit_succeeds)
  from 1 2 have 5: "superdense_coder tbl bs = Inl AssertionError \<longleftrightarrow> odd (length bs)"
    using superdense_coder_odd by blast
  from 1 3 4 5 superdense_coder_odd [of bs tbl] show ?thesis by blast
qed

theorem superdense_coder_failure_witness:
  "odd (length (str ''011'')) \<and> binary_string (str ''011'')
    \<and> superdense_coder ascii_digits_only (str ''011'') = Inl AssertionError
    \<and> even (length (str ''0110'')) \<and> binary_string (str ''0110'')
    \<and> \<not> isl (superdense_coder ascii_digits_only (str ''0110''))
    \<and> superdense_coder ascii_digits_only (str ''0110'') = build_circuit [0, 1, 1, 0]
    \<and> \<not> isl (build_circuit [0, 1, 1, 0])"
proof -
  have a: "odd (length (str ''011''))" "binary_string (str ''011'')"
    by (simp_all add: str_def binary_string_def)
  have b: "even (length (str ''0110''))" "binary_string (str ''0110'')"
    by (simp_all add: str_def binary_string_def)
  have c: "map (\<lambda>ch. ch - 48) (str ''0110'') = [0, 1, 1, 0]"
    by (simp add: str_def)
  from a superdense_coder_failure [of "str ''011''" ascii_digits_only]
  have 1: "superdense_coder ascii_digits_only (str ''011'') = Inl AssertionError" by blast
  from b superdense_coder_failure [of "str ''0110''" ascii_digits_only]
  have 2: "\<not> isl (superdense_coder ascii_digits_only (str ''0110''))"
    and 3: "superdense_coder ascii_digits_only (str ''0110'')
              = build_circuit (map (\<lambda>ch. ch - 48) (str ''0110''))"
    and 4: "\<not> isl (build_circuit (map (\<lambda>ch. ch - 48) (str ''0110'')))"
    by blast+
  from a b 1 2 3 4 show ?thesis by (simp only: c)
qed

text \<open>
  C10, as stated, says that every character other than \<open>0\<close> and \<open>1\<close> makes the coder
  fail. The conversion \<^verbatim>\<open>int(i, 2)\<close> also accepts the decimal digits of other
  scripts: with the Arabic-Indic digits one and zero the coder builds the circuit of
  the bits 1 and 0.
\<close>

theorem superdense_coder_accepts_other_digits_counterexample:
  "even (length [1633, 1632 :: nat]) \<and> 1633 \<in> set [1633, 1632 :: nat]
   \<and> (1633::nat) \<noteq> 48 \<and> (1633::nat) \<noteq> 49
   \<and> \<not> isl (superdense_coder arabic_indic_digits [1633, 1632])
   \<and> superdense_coder arabic_indic_digits [1633, 1632] = build_circuit [1, 0]
   \<and> build_circuit [1, 0] =
       Inr \<lparr>n_qubits = 2,
            gates = [GateH 0, GateCX 0 1, Barrier, GateX 0, Barrier,
                     GateCX 0 1, GateH 0, MeasureAll]\<rparr>"
proof -
  have 1: "superdense_coder arabic_indic_digits [1633, 1632] = build_circuit [1, 0]"
    by (simp add: superdense_coder_def parse_bits_def int_base2_def decimal_value_def
                  arabic_indic_digits_def)
  have 2: "build_circuit [1, 0] =
       Inr \<lparr>n_qubits = 2,
            gates = [GateH 0, GateCX 0 1, Barrier, GateX 0, Barrier,
                     GateCX 0 1, GateH 0, MeasureAll]\<rparr>"
    by code_simp
  from 1 2 show ?thesis by simp
qed

text \<open>
  C10, amended: on an input of even length that contains a character which is not a
  decimal digit of value 0 or 1, the coder fails with the error of the conversion and
  builds no circuit; every ASCII character other than \<open>0\<close> and \<open>1\<close> is such a
  character. So the assertion on the length is not the only check that stops the coder.
\<close>

theorem superdense_coder_rejects_non_binary:
  "(even (length bs) \<and> ch \<in> set bs \<and> \<not> binary_digit tbl ch
      \<longrightarrow> superdense_coder tbl bs = Inl ValueError)
   \<and> (ch < 128 \<and> ch \<noteq> 48 \<and> ch \<noteq> 49 \<longrightarrow> \<not> binary_digit tbl ch)"
  by (auto simp: superdense_coder_def parse_bits_def int_list_reject ascii_not_binary_digit)

theorem superdense_coder_rejects_non_binary_witness:
  "even (length (str ''0a'')) \<and> 97 \<in> set (str ''0a'') \<and> (97::nat) < 128
   \<and> (97::nat) \<noteq> 48 \<and> (97::nat) \<noteq> 49
   \<and> \<not> binary_digit arabic_indic_digits 97
   \<and> superdense_coder arabic_indic_digits (str ''0a'') = Inl ValueError"
proof -
  have a: "even (length (str ''0a''))" "97 \<in> set (str ''0a'')"
    by (simp_all add: str_def)
  have b: "(97::nat) < 128 \<and> (97::nat) \<noteq> 48 \<and> (97::nat) \<noteq> 49" by simp
  note fact = superdense_coder_rejects_non_binary [of _ 97 arabic_indic_digits]
  from b fact have c: "\<not> binary_digit arabic_indic_digits 97" by blast
  from a c fact [of "str ''0a''"]
  have "superdense_coder arabic_indic_digits (str ''0a'') = Inl ValueError" by blast
  with a b c show ?thesis by blast
qed

subsection \<open>Noiseless runs with a single possible outcome\<close>

lemma single_key_counts:
  assumes "noiseless_counts c shots counts" and "possible_keys c = [k]" and "0 < shots"
  shows "counts = [(k, shots)]"
proof (cases counts)
  case Nil
  with assms show ?thesis by (simp add: noiseless_counts_def)
next
  case (Cons p rest)
  obtain k1 m1 where p: "p = (k1, m1)" by (cases p)
  from assms Cons p have k1: "k1 = k"
    by (simp add: noiseless_counts_def)
  have "rest = []"
  proof (cases rest)
    case Nil
    then show ?thesis .
  next
    case (Cons p2 rest2)
    obtain k2 m2 where p2: "p2 = (k2, m2)" by (cases p2)
    from assms \<open>counts = p # rest\<close> Cons p p2 have "k2 = k" "k1 \<noteq> k2"
      by (auto simp: noiseless_counts_def)
    with k1 show ?thesis by simp
  qed
  with assms Cons p k1 show ?thesis
    by (simp add: noiseless_counts_def)
qed

lemma simulate_single_key:
  assumes "noiseless_counts c shots (run (transpile c) n)"
    and "possible_keys c = [k]" and "0 < shots"
  shows "simulate_circuit run c n = [canonical_bitstring (rev k) \<mapsto> shots]"
  using single_key_counts [OF assms] by (simp add: simulate_circuit_def Let_def)

lemma noiseless_first_outcome_sampler:
  "possible_keys c = [k] \<Longrightarrow> 0 < shots \<Longrightarrow> noiseless_counts c shots (first_outcome_sampler c shots)"
  by (simp add: noiseless_counts_def first_outcome_sampler_def)

text \<open>
  C1: for each of the four bit pairs, the circuit that prepares the Bell state, encodes
  \<open>(b0, b1)\<close> on carrier A, decodes and measures is built without an error and has
  exactly one outcome of probability 1 (every other outcome has probability 0); read
  through the notebook's own read-out (reversal of the key, then
  \<open>canonical_bitstring\<close>) this outcome is the string \<open>b0 b1\<close>, and every noiseless run
  reports all of its samples on that string.
\<close>

theorem pair_roundtrip:
  "\<exists>c. pair_circuit b0 b1 = Inr c
     \<and> (\<forall>i<4. outcome_probability (final_state c) i =
                 (if i = pair_outcome b0 b1 then 1 else 0))
     \<and> canonical_bitstring (rev (qiskit_key 2 (pair_outcome b0 b1))) = [bit_char b0, bit_char b1]
     \<and> (\<forall>run n shots.
           noiseless_counts c shots (run (transpile c) n) \<and> 0 < shots
           \<longrightarrow> simulate_circuit run c n = [[bit_char b0, bit_char b1] \<mapsto> shots])"
proof -
  obtain c where c: "pair_circuit b0 b1 = Inr c"
    using pair_circuit_result [of b0 b1] by blast
  have "simulate_circuit run c n = [[bit_char b0, bit_char b1] \<mapsto> shots]"
    if "noiseless_counts c shots (run (transpile c) n)" and "0 < shots" for run n shots
    using simulate_single_key [of c shots run n "qiskit_key 2 (pair_outcome b0 b1)"]
      that possible_keys_pair_circuit [OF c]
    by (simp only: canonical_pair_key)
  with c show ?thesis
    by (simp add: probability_pair_circuit [OF c] canonical_pair_key)
qed

theorem pair_roundtrip_witness:
  "(2::nat) < 4 \<and> (0::nat) < 7
   \<and> (\<exists>c. pair_circuit True False = Inr c
         \<and> noiseless_counts c 7 (first_outcome_sampler (transpile c) 7)
         \<and> outcome_probability (final_state c) 2 = 1
         \<and> simulate_circuit first_outcome_sampler c 7 = [str ''10'' \<mapsto> 7])
   \<and> canonical_bitstring (rev (qiskit_key 2 (pair_outcome True False))) = str ''10''"
proof -
  from pair_roundtrip [of True False] obtain c
    where c: "pair_circuit True False = Inr c"
      and p: "\<forall>i<4. outcome_probability (final_state c) i =
                      (if i = pair_outcome True False then 1 else 0)"
      and r: "canonical_bitstring (rev (qiskit_key 2 (pair_outcome True False)))
                = [bit_char True, bit_char False]"
      and s: "\<forall>run n shots.
                noiseless_counts c shots (run (transpile c) n) \<and> 0 < shots
                \<longrightarrow> simulate_circuit run c n = [[bit_char True, bit_char False] \<mapsto> shots]"
    by blast
  have h: "noiseless_counts c 7 (first_outcome_sampler (transpile c) 7)"
    by (simp add: transpile_def noiseless_first_outcome_sampler possible_keys_pair_circuit [OF c])
  have k: "[bit_char True, bit_char False] = str ''10''"
    by (simp add: bit_char_def str_def)
  have o: "pair_outcome True False = 2"
    by (simp add: pair_outcome_def)
  from p o have 1: "outcome_probability (final_state c) 2 = 1"
    by simp
  from r k have 2: "canonical_bitstring (rev (qiskit_key 2 (pair_outcome True False))) = str ''10''"
    by simp
  from s h have "simulate_circuit first_outcome_sampler c 7
                   = [[bit_char True, bit_char False] \<mapsto> 7]"
    by simp
  with k have 3: "simulate_circuit first_outcome_sampler c 7 = [str ''10'' \<mapsto> 7]"
    by simp
  from c h 1 2 3 show ?thesis by auto
qed

subsection \<open>The example of the notebook\<close>

lemma build_001101: "build_circuit [0, 0, 1, 1, 0, 1] = Inr circuit_001101"
  by code_simp

lemma amps_001101:
  "amps (final_state circuit_001101) = (replicate 22 0 @ [8] @ replicate 41 0)"
  by code_simp

lemma hcount_001101:
  "hcount (final_state circuit_001101) = 6"
  by code_simp

lemma possible_keys_001101:
  "possible_keys circuit_001101 = [[48, 49, 48, 49, 49, 48]]"
  by code_simp

lemma canonical_001101:
  "canonical_bitstring (rev [48, 49, 48, 49, 49, 48 :: nat]) = str ''001101''"
  "canonical_bitstring [48, 49, 49, 48, 49, 48 :: nat] = str ''001101''"
  by code_simp+

lemma nth_amps_001101:
  "i < 64 \<Longrightarrow> amps (final_state circuit_001101) ! i = (if i = 22 then 8 else 0)"
  by (simp only: amps_001101) (auto simp: nth_append nth_Cons')

lemma probability_001101:
  "i < 64 \<Longrightarrow> outcome_probability (final_state circuit_001101) i = (if i = 22 then 1 else 0)"
  by (simp add: outcome_probability_def hcount_001101 nth_amps_001101)

lemma qiskit_key_22: "qiskit_key 6 22 = [48, 49, 48, 49, 49, 48]"
  by code_simp

lemma bits_001101: "map (\<lambda>ch. ch - 48) (str ''001101'') = [0, 0, 1, 1, 0, 1]"
  by (simp add: str_def)

lemma coder_001101:
  "superdense_coder tbl (str ''001101'') = Inr circuit_001101"
proof -
  have "even (length (str ''001101''))" "binary_string (str ''001101'')"
    by (simp_all add: str_def binary_string_def)
  then show ?thesis
    using superdense_coder_binary [of "str ''001101''" tbl]
    by (simp only: bits_001101 build_001101)
qed

text \<open>
  C8: for the input \<open>001101\<close> the coder builds a circuit whose only possible outcome,
  basis state 22 with probability 1, reads as the canonical bit string \<open>001101\<close>; so
  the mapping returned by \<open>simulate_circuit\<close> for a noiseless run has this single key,
  with the whole number of samples as its count.
\<close>

theorem scenario_001101:
  "superdense_coder tbl (str ''001101'') = Inr circuit_001101
   \<and> (\<forall>i<64. outcome_probability (final_state circuit_001101) i =
               (if i = 22 then 1 else 0))
   \<and> canonical_bitstring (rev (qiskit_key 6 22)) = str ''001101''
   \<and> (\<forall>run n shots.
         noiseless_counts circuit_001101 shots
             (run (transpile circuit_001101) n) \<and> 0 < shots
         \<longrightarrow> simulate_circuit run circuit_001101 n
               = [str ''001101'' \<mapsto> shots])"
proof -
  have "simulate_circuit run circuit_001101 n = [str ''001101'' \<mapsto> shots]"
    if "noiseless_counts circuit_001101 shots
          (run (transpile circuit_001101) n)" and "0 < shots"
    for run n shots
    using simulate_single_key [of circuit_001101 shots run n "[48, 49, 48, 49, 49, 48]"]
      that possible_keys_001101
    by (simp only: canonical_001101)
  then show ?thesis
    by (simp add: coder_001101 probability_001101 qiskit_key_22 canonical_001101)
qed

theorem scenario_001101_witness:
  "(22::nat) < 64 \<and> (0::nat) < 1024
   \<and> noiseless_counts circuit_001101 1024
        (first_outcome_sampler (transpile circuit_001101) 1024)
   \<and> superdense_coder ascii_digits_only (str ''001101'') = Inr circuit_001101
   \<and> outcome_probability (final_state circuit_001101) 22 = 1
   \<and> simulate_circuit first_outcome_sampler circuit_001101 1024
       = [str ''001101'' \<mapsto> 1024]"
proof -
  note fact = scenario_001101 [of ascii_digits_only]
  have h: "noiseless_counts circuit_001101 1024
             (first_outcome_sampler (transpile circuit_001101) 1024)"
    by (simp add: transpile_def noiseless_first_outcome_sampler possible_keys_001101)
  from fact have 1: "superdense_coder ascii_digits_only (str ''001101'')
                       = Inr circuit_001101"
    by blast
  from fact have 2: "outcome_probability (final_state circuit_001101) 22 = 1"
    by simp
  from fact h have 3: "simulate_circuit first_outcome_sampler circuit_001101 1024
                         = [str ''001101'' \<mapsto> 1024]"
    by simp
  from h 1 2 3 show ?thesis by simp
qed

text \<open>
  C9: the claim is that the counts add up to \<open>n_samples\<close>, 1000 by default. The
  notebook passes \<open>n_samples\<close> as the second positional argument of the backend's
  \<open>run\<close>, which is not the number of shots: with the default \<open>n_samples\<close> the example
  is sampled 1024 times, as the recorded output shows.
\<close>

theorem simulate_circuit_ignores_n_samples:
  "superdense_coder ascii_digits_only (str ''001101'') = Inr circuit_001101
   \<and> noiseless_counts circuit_001101 aer_default_shots
        (aer_run first_outcome_sampler (transpile circuit_001101)
           default_n_samples)
   \<and> simulate_circuit (aer_run first_outcome_sampler) circuit_001101
        default_n_samples = [str ''001101'' \<mapsto> 1024]
   \<and> default_n_samples = 1000"
proof -
  have h: "noiseless_counts circuit_001101 aer_default_shots
             (aer_run first_outcome_sampler (transpile circuit_001101)
                default_n_samples)"
    by (simp add: aer_run_def aer_default_shots_def transpile_def
                  noiseless_first_outcome_sampler possible_keys_001101)
  have "simulate_circuit (aer_run first_outcome_sampler) circuit_001101
          default_n_samples = [str ''001101'' \<mapsto> aer_default_shots]"
    using simulate_single_key [of circuit_001101 aer_default_shots
            "aer_run first_outcome_sampler" default_n_samples "[48, 49, 48, 49, 49, 48]"]
      h possible_keys_001101
    by (simp add: canonical_001101 aer_default_shots_def)
  with h show ?thesis
    by (simp add: coder_001101 aer_default_shots_def default_n_samples_def)
qed

subsection \<open>Encoding leaves register B alone\<close>

lemma bit_add_high:
  assumes "q < N"
  shows "bit (a + x * 2 ^ N) q = bit (a::nat) q"
proof -
  from assms obtain k where "N = Suc (q + k)"
    using less_imp_Suc_add by blast
  then have N: "N = q + Suc k" by simp
  have e: "a + x * 2 ^ N = a + (x * 2 * 2 ^ k) * 2 ^ q"
    by (simp add: N power_add)
  have "(a + (x * 2 * 2 ^ k) * 2 ^ q) div 2 ^ q = a div 2 ^ q + 2 * (x * 2 ^ k)"
    by simp
  then have "(a + x * 2 ^ N) div 2 ^ q = a div 2 ^ q + 2 * (x * 2 ^ k)"
    by (simp only: e)
  then show ?thesis
    by (simp add: bit_iff_odd)
qed

lemma bit_imp_le: "bit (a::nat) q \<Longrightarrow> 2 ^ q \<le> a"
  by (rule ccontr) (simp add: bit_iff_odd not_le)

lemma bit_add_self: "\<not> bit (a::nat) q \<Longrightarrow> bit (a + 2 ^ q) q"
  by (simp add: bit_iff_odd)

lemma bit_sub_self:
  assumes "bit (a::nat) q"
  shows "\<not> bit (a - 2 ^ q) q"
proof -
  from assms have "a = (a - 2 ^ q) + 2 ^ q"
    using bit_imp_le [of a q] by simp
  then have "a div 2 ^ q = (a - 2 ^ q) div 2 ^ q + 1"
    by (metis div_add_self2 power_not_zero zero_neq_numeral)
  with assms show ?thesis
    by (simp add: bit_iff_odd)
qed

lemma add_bit_less:
  assumes "\<not> bit (a::nat) q" and "a < 2 ^ N" and "q < N"
  shows "a + 2 ^ q < 2 ^ N"
proof -
  from assms obtain k where "N = Suc (q + k)"
    using less_imp_Suc_add by blast
  then have N: "N = q + Suc k" by simp
  define d where "d = a div 2 ^ q"
  have even_d: "even d"
    using assms(1) by (simp add: bit_iff_odd d_def)
  have "a < 2 ^ q * (2 * 2 ^ k)"
    using assms(2) by (simp add: N power_add)
  then have "d < 2 * 2 ^ k"
    unfolding d_def by (simp add: less_mult_imp_div_less mult.commute)
  with even_d have d2: "d + 2 \<le> 2 * 2 ^ k"
    by (elim evenE) simp
  have "a < 2 ^ q + d * 2 ^ q"
    unfolding d_def by (rule dividend_less_div_times) simp
  then have "a + 2 ^ q < (d + 2) * 2 ^ q"
    by (simp add: algebra_simps)
  also have "\<dots> \<le> (2 * 2 ^ k) * 2 ^ q"
    using d2 by (rule mult_le_mono1)
  also have "\<dots> = 2 ^ N"
    by (simp add: N power_add)
  finally show ?thesis .
qed

lemma flip_qubit_less: "q < N \<Longrightarrow> a < 2 ^ N \<Longrightarrow> flip_qubit q a < 2 ^ N"
  by (simp add: flip_qubit_def add_bit_less less_imp_diff_less)

lemma flip_qubit_involution: "flip_qubit q (flip_qubit q a) = a"
  using bit_imp_le [of a q]
  by (simp add: flip_qubit_def bit_add_self bit_sub_self)

lemma flip_qubit_add_high:
  "q < N \<Longrightarrow> flip_qubit q (a + x * 2 ^ N) = flip_qubit q a + x * 2 ^ N"
  using bit_imp_le [of a q]
  by (simp add: flip_qubit_def bit_add_high)

lemma length_apply_gate [simp]: "length (amps (apply_gate g s)) = length (amps s)"
  by (cases g) simp_all

lemma length_run_gates [simp]: "length (amps (run_gates gs s)) = length (amps s)"
  unfolding run_gates_def by (induction gs arbitrary: s) simp_all

lemma pair_index_less:
  assumes "a < 2 ^ N" and "x < 2 ^ N"
  shows "a + x * 2 ^ N < (2::nat) ^ (2 * N)"
proof -
  have "a + x * 2 ^ N < 2 ^ N + x * 2 ^ N"
    using assms(1) by simp
  also have "\<dots> = (x + 1) * 2 ^ N" by simp
  also have "\<dots> \<le> 2 ^ N * 2 ^ N"
    using assms(2) by (simp del: add_mult_distrib mult_Suc)
  also have "\<dots> = 2 ^ (2 * N)"
    by (simp add: power_add [symmetric] mult_2)
  finally show ?thesis .
qed

lemma register_b_density_sum:
  "register_b_density N s x y =
     (\<Sum>a = 0..<2 ^ N. amps s ! (a + x * 2 ^ N) * amps s ! (a + y * 2 ^ N))"
  by (simp add: register_b_density_def interv_sum_list_conv_sum_set_nat)

lemma density_gate_x:
  assumes "q < N" and "length (amps s) = 2 ^ (2 * N)" and "x < 2 ^ N" and "y < 2 ^ N"
  shows "register_b_density N (apply_gate (GateX q) s) x y = register_b_density N s x y"
proof -
  let ?f = "\<lambda>a. amps s ! (a + x * 2 ^ N) * amps s ! (a + y * 2 ^ N)"
  have "register_b_density N (apply_gate (GateX q) s) x y
          = (\<Sum>a = 0..<2 ^ N. ?f (flip_qubit q a))"
    unfolding register_b_density_sum
  proof (rule sum.cong)
    fix a assume "a \<in> {0..<(2::nat) ^ N}"
    then have a: "a < 2 ^ N" by simp
    show "amps (apply_gate (GateX q) s) ! (a + x * 2 ^ N)
            * amps (apply_gate (GateX q) s) ! (a + y * 2 ^ N) = ?f (flip_qubit q a)"
      using pair_index_less [OF a assms(3)] pair_index_less [OF a assms(4)] assms(1,2)
      by (simp add: flip_qubit_add_high)
  qed simp
  also have "\<dots> = (\<Sum>a = 0..<2 ^ N. ?f a)"
    by (rule sum.reindex_bij_witness [where i = "flip_qubit q" and j = "flip_qubit q"])
       (simp_all add: flip_qubit_involution flip_qubit_less assms(1))
  finally show ?thesis
    by (simp add: register_b_density_sum)
qed

lemma density_gate_z:
  assumes "q < N" and "length (amps s) = 2 ^ (2 * N)" and "x < 2 ^ N" and "y < 2 ^ N"
  shows "register_b_density N (apply_gate (GateZ q) s) x y = register_b_density N s x y"
  unfolding register_b_density_sum
proof (rule sum.cong)
  fix a assume "a \<in> {0..<(2::nat) ^ N}"
  then have a: "a < 2 ^ N" by simp
  show "amps (apply_gate (GateZ q) s) ! (a + x * 2 ^ N)
          * amps (apply_gate (GateZ q) s) ! (a + y * 2 ^ N)
        = amps s ! (a + x * 2 ^ N) * amps s ! (a + y * 2 ^ N)"
    using pair_index_less [OF a assms(3)] pair_index_less [OF a assms(4)] assms(1,2)
    by (simp add: bit_add_high)
qed simp

lemma density_run_gates:
  assumes "\<forall>g \<in> set gs. \<exists>q<N. g = GateX q \<or> g = GateZ q"
    and "length (amps s) = 2 ^ (2 * N)" and "x < 2 ^ N" and "y < 2 ^ N"
  shows "register_b_density N (run_gates gs s) x y = register_b_density N s x y"
  using assms
proof (induction gs arbitrary: s)
  case Nil
  then show ?case by (simp add: run_gates_def)
next
  case (Cons g gs)
  from Cons.prems(1) obtain q where q: "q < N" "g = GateX q \<or> g = GateZ q"
    by auto
  have step: "register_b_density N (apply_gate g s) x y = register_b_density N s x y"
    using q Cons.prems(2-4) density_gate_x density_gate_z by blast
  have "run_gates (g # gs) s = run_gates gs (apply_gate g s)"
    by (simp add: run_gates_def)
  moreover have "register_b_density N (run_gates gs (apply_gate g s)) x y
                   = register_b_density N (apply_gate g s) x y"
    using Cons.prems by (intro Cons.IH) simp_all
  ultimately show ?case using step by simp
qed

lemma hcount_run_gates:
  assumes "\<forall>g \<in> set gs. \<exists>q<N. g = GateX q \<or> g = GateZ q"
  shows "hcount (run_gates gs s) = hcount s"
  using assms unfolding run_gates_def
  by (induction gs arbitrary: s) auto

lemma encode_section_gates:
  assumes "g \<in> set (encode_section bits)"
  shows "\<exists>q<length bits div 2. g = GateX q \<or> g = GateZ q"
proof -
  from assms obtain q bp where in_enum: "(q, bp) \<in> set (enumerate 0 (reshape2 bits))"
    and g: "g \<in> set ((if fst bp \<noteq> 0 then [GateX q] else [])
                       @ (if snd bp \<noteq> 0 then [GateZ q] else []))"
    unfolding encode_section_def by auto
  from in_enum have "q < length bits div 2"
    by (simp add: in_set_enumerate_eq length_reshape2)
  moreover from g have "g = GateX q \<or> g = GateZ q"
    by (auto split: if_splits)
  ultimately show ?thesis by blast
qed

lemma phases_on_fresh_circuit:
  "bell_phase N (QuantumCircuit N N) = Inr \<lparr>n_qubits = N + N, gates = bell_section N\<rparr>"
  "encode_phase (reshape2 bits) (QuantumCircuit (length bits div 2) (length bits div 2))
     = Inr \<lparr>n_qubits = length bits div 2 + length bits div 2, gates = encode_section bits\<rparr>"
  "decode_phase N (QuantumCircuit N N) = Inr \<lparr>n_qubits = N + N, gates = decode_section N\<rparr>"
  by (simp_all add: bell_phase_result encode_phase_result decode_phase_result QuantumCircuit_def)

text \<open>
  C7: every gate that \<open>encode_bits\<close> appends acts on the single qubit \<open>q\<close>, and the
  gates already in the circuit stay as they are (for \<open>q\<close> a qubit of the circuit it
  does return a circuit). The coder's circuit is the Bell preparations, a barrier, the
  encoding section, a barrier, the decodings and the measurement, each section being
  what its loop appends to a fresh circuit; the encoding section consists of gates on
  Alice's qubits only, and running it on any state of the \<open>2 * N\<close> qubits leaves the
  reduced density matrix of register B, that is the state of Bob's carriers, unchanged
  (the sums and their common denominator \<open>2 ^ hcount\<close> stay the same).
\<close>

theorem encode_frame:
  "(\<forall>c'. encode_bits c q b0 b1 = Inr c' \<longrightarrow>
        (\<forall>g \<in> set (drop (length (gates c)) (gates c')). gate_qubits g = {q})
        \<and> take (length (gates c)) (gates c') = gates c)
   \<and> (q < n_qubits c \<longrightarrow> \<not> isl (encode_bits c q b0 b1))
   \<and> build_circuit bits =
       Inr \<lparr>n_qubits = length bits div 2 + length bits div 2,
            gates = bell_section (length bits div 2) @ [Barrier] @ encode_section bits
                      @ [Barrier] @ decode_section (length bits div 2) @ [MeasureAll]\<rparr>
   \<and> bell_phase (length bits div 2) (QuantumCircuit (length bits div 2) (length bits div 2))
       = Inr \<lparr>n_qubits = length bits div 2 + length bits div 2,
              gates = bell_section (length bits div 2)\<rparr>
   \<and> encode_phase (reshape2 bits) (QuantumCircuit (length bits div 2) (length bits div 2))
       = Inr \<lparr>n_qubits = length bits div 2 + length bits div 2, gates = encode_section bits\<rparr>
   \<and> decode_phase (length bits div 2) (QuantumCircuit (length bits div 2) (length bits div 2))
       = Inr \<lparr>n_qubits = length bits div 2 + length bits div 2,
              gates = decode_section (length bits div 2)\<rparr>
   \<and> (\<forall>g \<in> set (encode_section bits). \<exists>q<length bits div 2. gate_qubits g = {q})
   \<and> (\<forall>s. hcount (run_gates (encode_section bits) s) = hcount s)
   \<and> (\<forall>s x y. length (amps s) = 2 ^ (2 * (length bits div 2))
                 \<and> x < 2 ^ (length bits div 2) \<and> y < 2 ^ (length bits div 2)
         \<longrightarrow> register_b_density (length bits div 2) (run_gates (encode_section bits) s) x y
               = register_b_density (length bits div 2) s x y)"
proof -
  have 1: "(\<forall>g \<in> set (drop (length (gates c)) (gates c')). gate_qubits g = {q})
           \<and> take (length (gates c)) (gates c') = gates c"
    if "encode_bits c q b0 b1 = Inr c'" for c'
  proof -
    from that have "gates c' = gates c @ (if b0 then [GateX q] else [])
                                 @ (if b1 then [GateZ q] else [])"
      by (auto simp: encode_bits_result split: if_splits)
    then show ?thesis by auto
  qed
  have 2: "\<not> isl (encode_bits c q b0 b1)" if "q < n_qubits c"
    using that by (simp add: encode_bits_result)
  have 3: "\<forall>g \<in> set (encode_section bits). \<exists>q<length bits div 2. gate_qubits g = {q}"
  proof
    fix g assume "g \<in> set (encode_section bits)"
    from encode_section_gates [OF this] obtain q
      where "q < length bits div 2" "g = GateX q \<or> g = GateZ q" by blast
    then have "q < length bits div 2 \<and> gate_qubits g = {q}" by auto
    then show "\<exists>q<length bits div 2. gate_qubits g = {q}" by blast
  qed
  have 4: "register_b_density (length bits div 2) (run_gates (encode_section bits) s) x y
             = register_b_density (length bits div 2) s x y"
    if "length (amps s) = 2 ^ (2 * (length bits div 2))"
      and "x < 2 ^ (length bits div 2)" and "y < 2 ^ (length bits div 2)" for s x y
    using that encode_section_gates
    by (intro density_run_gates) blast+
  have 5: "hcount (run_gates (encode_section bits) s) = hcount s" for s
    using encode_section_gates by (intro hcount_run_gates) blast
  from 1 2 3 4 5 build_circuit_result [of bits]
    phases_on_fresh_circuit(1) [of "length bits div 2"] phases_on_fresh_circuit(2) [of bits]
    phases_on_fresh_circuit(3) [of "length bits div 2"]
  show ?thesis by blast
qed

theorem encode_frame_witness:
  "encode_bits (QuantumCircuit 1 1) 0 True True = Inr \<lparr>n_qubits = 2, gates = [GateX 0, GateZ 0]\<rparr>
   \<and> (0::nat) < n_qubits (QuantumCircuit 1 1)
   \<and> \<not> isl (encode_bits (QuantumCircuit 1 1) 0 True True)
   \<and> GateX 0 \<in> set (drop (length (gates (QuantumCircuit 1 1)))
                        (gates \<lparr>n_qubits = 2, gates = [GateX 0, GateZ 0]\<rparr>))
   \<and> gate_qubits (GateX 0) = {0}
   \<and> GateZ 0 \<in> set (encode_section [1, 1])
   \<and> (\<exists>q<length [1, 1 :: nat] div 2. gate_qubits (GateZ 0) = {q})
   \<and> length (amps \<lparr>amps = [1, 0, 0, 1], hcount = 1\<rparr>) = 2 ^ (2 * (length [1, 1 :: nat] div 2))
   \<and> (0::nat) < 2 ^ (length [1, 1 :: nat] div 2) \<and> (1::nat) < 2 ^ (length [1, 1 :: nat] div 2)
   \<and> register_b_density (length [1, 1 :: nat] div 2)
        (run_gates (encode_section [1, 1]) \<lparr>amps = [1, 0, 0, 1], hcount = 1\<rparr>) 0 1
      = register_b_density (length [1, 1 :: nat] div 2) \<lparr>amps = [1, 0, 0, 1], hcount = 1\<rparr> 0 1"
proof -
  note fact = encode_frame [of "QuantumCircuit 1 1" 0 True True "[1, 1]"]
  have e: "encode_bits (QuantumCircuit 1 1) 0 True True
             = Inr \<lparr>n_qubits = 2, gates = [GateX 0, GateZ 0]\<rparr>"
    by (simp add: encode_bits_result QuantumCircuit_def)
  have n: "(0::nat) < n_qubits (QuantumCircuit 1 1)"
    by (simp add: QuantumCircuit_def)
  have a: "GateX 0 \<in> set (drop (length (gates (QuantumCircuit 1 1)))
                              (gates \<lparr>n_qubits = 2, gates = [GateX 0, GateZ 0]\<rparr>))"
    by (simp add: QuantumCircuit_def)
  have b: "GateZ 0 \<in> set (encode_section [1, 1])"
    by code_simp
  have c: "length (amps \<lparr>amps = [1, 0, 0, 1], hcount = 1\<rparr>)
             = 2 ^ (2 * (length [1, 1 :: nat] div 2))"
    "(0::nat) < 2 ^ (length [1, 1 :: nat] div 2)" "(1::nat) < 2 ^ (length [1, 1 :: nat] div 2)"
    by simp_all
  from fact n have 0: "\<not> isl (encode_bits (QuantumCircuit 1 1) 0 True True)" by blast
  from fact e a have 1: "gate_qubits (GateX 0) = {0}" by blast
  from fact b have 2: "\<exists>q<length [1, 1 :: nat] div 2. gate_qubits (GateZ 0) = {q}" by blast
  from fact c have 3: "register_b_density (length [1, 1 :: nat] div 2)
        (run_gates (encode_section [1, 1]) \<lparr>amps = [1, 0, 0, 1], hcount = 1\<rparr>) 0 1
      = register_b_density (length [1, 1 :: nat] div 2) \<lparr>amps = [1, 0, 0, 1], hcount = 1\<rparr> 0 1"
    by blast
  from e n a b c 0 1 2 3 show ?thesis by blast
qed

end
